theory Spec2Isabelle
  imports Main "HOL-Library.Multiset"
begin

section \<open>Python strings\<close>

text \<open>
  A Python \<open>str\<close> is a sequence of Unicode code points. The model keeps that: a string is a
  list of code points (natural numbers), so that \<open>len\<close>, \<open>strip\<close> and the regular
  expression count and test what Python counts and tests. \<open>py\<close> embeds an ASCII literal.
\<close>

type_synonym pystr = "nat list"

definition py :: "string \<Rightarrow> pystr" where
  "py s = map of_char s"

text \<open>
  \<open>str.strip()\<close> without argument removes leading and trailing whitespace, where
  whitespace is what \<open>str.isspace\<close> accepts: the code points below.
\<close>

definition isspace :: "nat \<Rightarrow> bool" where
  "isspace c \<longleftrightarrow>
     (9 \<le> c \<and> c \<le> 13) \<or> (28 \<le> c \<and> c \<le> 32) \<or> c = 133 \<or> c = 160 \<or> c = 5760 \<or>
     (8192 \<le> c \<and> c \<le> 8202) \<or> c = 8232 \<or> c = 8233 \<or> c = 8239 \<or> c = 8287 \<or> c = 12288"

definition strip :: "pystr \<Rightarrow> pystr" where
  "strip s = rev (dropWhile isspace (rev (dropWhile isspace s)))"

text \<open>
  \<open>str.lower()\<close>. The source applies it to the text captured by \<open>USERNAME_RE\<close> and to
  the message of a platform error; the model lowers the letters A to Z and leaves every
  other code point as it is (exact on ASCII text, which is all the regular expression
  lets through).
\<close>

definition lower_char :: "nat \<Rightarrow> nat" where
  "lower_char c = (if 65 \<le> c \<and> c \<le> 90 then c + 32 else c)"

definition lower :: "pystr \<Rightarrow> pystr" where
  "lower s = map lower_char s"

text \<open>The \<open>in\<close> operator on strings: \<open>contains sub s\<close> is \<open>sub in s\<close>.\<close>

fun startswith :: "pystr \<Rightarrow> pystr \<Rightarrow> bool" where
  "startswith s [] = True"
| "startswith [] (p # ps) = False"
| "startswith (c # cs) (p # ps) = (c = p \<and> startswith cs ps)"

fun contains :: "pystr \<Rightarrow> pystr \<Rightarrow> bool" where
  "contains sub [] = (sub = [])"
| "contains sub (c # cs) = (startswith (c # cs) sub \<or> contains sub cs)"

section \<open>Regular expressions\<close>

text \<open>
  The fragment of Python's \<open>re\<close> that \<open>USERNAME_RE\<close> uses: a literal character, a
  character class of ranges, \<open>r?\<close>, concatenation and the counted repetition \<open>r{m,n}\<close>.
  \<open>rematch r s\<close> lists what is left of \<open>s\<close> after each way of matching \<open>r\<close> at its
  start, in the order a backtracking matcher tries them (greedy first).
\<close>

datatype regex =
    Lit nat
  | Class "(nat \<times> nat) list"
  | Opt regex
  | Seq regex regex
  | Rep nat nat regex

definition in_class :: "(nat \<times> nat) list \<Rightarrow> nat \<Rightarrow> bool" where
  "in_class rs c = list_ex (\<lambda>(lo, hi). lo \<le> c \<and> c \<le> hi) rs"

fun repeat_match :: "(pystr \<Rightarrow> pystr list) \<Rightarrow> nat \<Rightarrow> nat \<Rightarrow> pystr \<Rightarrow> pystr list" where
  "repeat_match f m 0 s = (if m = 0 then [s] else [])"
| "repeat_match f m (Suc n) s =
     concat (map (repeat_match f (m - 1) n) (f s)) @ (if m = 0 then [s] else [])"

fun lit_step :: "nat \<Rightarrow> pystr \<Rightarrow> pystr list" where
  "lit_step c [] = []"
| "lit_step c (x # xs) = (if x = c then [xs] else [])"

fun class_step :: "(nat \<times> nat) list \<Rightarrow> pystr \<Rightarrow> pystr list" where
  "class_step rs [] = []"
| "class_step rs (x # xs) = (if in_class rs x then [xs] else [])"

fun rematch :: "regex \<Rightarrow> pystr \<Rightarrow> pystr list" where
  "rematch (Lit c) s = lit_step c s"
| "rematch (Class rs) s = class_step rs s"
| "rematch (Opt r) s = rematch r s @ [s]"
| "rematch (Seq r1 r2) s = concat (map (rematch r2) (rematch r1 s))"
| "rematch (Rep m n r) s = repeat_match (\<lambda>t. rematch r t) m n s"

text \<open>
  A pattern of the shape \<open>^pre(grp)$\<close> applied with \<open>re.match\<close>: the first way of
  matching \<open>pre\<close> and then \<open>grp\<close> that ends where \<open>$\<close> holds. Without the
  \<open>MULTILINE\<close> flag \<open>$\<close> holds at the end of the string and just before a newline that
  ends the string. The value is \<open>m.group(1)\<close>, or \<open>None\<close> when there is no match.
\<close>

definition at_dollar :: "pystr \<Rightarrow> bool" where
  "at_dollar u \<longleftrightarrow> u = [] \<or> u = [10]"

definition re_match_group1 :: "regex \<Rightarrow> regex \<Rightarrow> pystr \<Rightarrow> pystr option" where
  "re_match_group1 pre grp s =
     (case concat (map (\<lambda>t. map (\<lambda>u. (t, u)) (filter at_dollar (rematch grp t))) (rematch pre s)) of
        [] \<Rightarrow> None
      | (t, u) # _ \<Rightarrow> Some (take (length t - length u) t))"

section \<open>The username normalizer (bot.py)\<close>

text \<open>\<open>USERNAME_RE = re.compile(r"^@?([a-zA-Z][a-zA-Z0-9_]{4,31})$")\<close>\<close>

definition USERNAME_RE_pre :: regex where
  "USERNAME_RE_pre = Opt (Lit 64)"

definition USERNAME_RE_grp :: regex where
  "USERNAME_RE_grp =
     Seq (Class [(97, 122), (65, 90)])
         (Rep 4 31 (Class [(97, 122), (65, 90), (48, 57), (95, 95)]))"

definition USERNAME_RE_match :: "pystr \<Rightarrow> pystr option" where
  "USERNAME_RE_match s = re_match_group1 USERNAME_RE_pre USERNAME_RE_grp s"

definition normalize_username :: "pystr \<Rightarrow> pystr option" where
  "normalize_username raw0 =
     (let raw = strip raw0 in
      if raw = [] then None
      else case USERNAME_RE_match raw of
             None \<Rightarrow> None
           | Some name \<Rightarrow> Some (py ''@'' @ lower name))"

text \<open>
  The contract of the normalizer in the specification's words, to compare with the code:
  the trimmed input is an optional marker \<open>@\<close> followed by a text \<open>t\<close> that starts with
  a letter and has 5 to 32 characters, all of them letters, digits or underscore.
\<close>

definition is_letter :: "nat \<Rightarrow> bool" where
  "is_letter c \<longleftrightarrow> (97 \<le> c \<and> c \<le> 122) \<or> (65 \<le> c \<and> c \<le> 90)"

definition is_digit :: "nat \<Rightarrow> bool" where
  "is_digit c \<longleftrightarrow> 48 \<le> c \<and> c \<le> 57"

definition handle_ok :: "pystr \<Rightarrow> bool" where
  "handle_ok t \<longleftrightarrow>
     (case t of [] \<Rightarrow> False | c # _ \<Rightarrow> is_letter c) \<and> 5 \<le> length t \<and> length t \<le> 32 \<and>
     list_all (\<lambda>c. is_letter c \<or> is_digit c \<or> c = 95) t"

definition handle_form :: "pystr \<Rightarrow> pystr \<Rightarrow> bool" where
  "handle_form trimmed t \<longleftrightarrow> (trimmed = t \<or> trimmed = 64 # t) \<and> handle_ok t"

text \<open>What is left of a string once one leading \<open>@\<close> is taken off.\<close>

definition re_body :: "pystr \<Rightarrow> pystr" where
  "re_body s = (case s of [] \<Rightarrow> [] | c # cs \<Rightarrow> if c = 64 then cs else s)"

section \<open>The credential generator (bot.py)\<close>

text \<open>
  \<open>secrets.choice(chars)\<close> picks \<open>chars[k]\<close> for a random \<open>k\<close> below \<open>len(chars)\<close>.
  The random source is an argument of the model: \<open>draw i\<close> is the entropy of the
  \<open>i\<close>-th pick, reduced modulo the length of the alphabet.
\<close>

definition password_chars :: pystr where
  "password_chars =
     py (''abcdefghijklmnopqrstuvwxyzABCDEFGHIJKLMNOPQRSTUVWXYZ'' @ ''0123456789'' @ ''!@#$%^&*'')"

definition generate_password :: "(nat \<Rightarrow> nat) \<Rightarrow> nat \<Rightarrow> pystr" where
  "generate_password draw n =
     map (\<lambda>i. password_chars ! (draw i mod length password_chars)) [0..<n]"

section \<open>The resilient call wrapper (bot.py, \<open>catch_telegram_errors\<close>)\<close>

text \<open>
  An exception raised by the wrapped call, as the chain of \<open>except\<close> clauses sees it: for
  each class the chain names, whether the exception is an instance of it, together with
  its \<open>retry_after\<close> attribute (when it has one) and \<open>str(e)\<close>. The class hierarchy
  belongs to the platform library; the model does not fix it, so an exception that is
  an instance of none of the classes stands for any exception from outside the library.
\<close>

record raised_error =
  inst_Unauthorized :: bool
  inst_RetryAfter :: bool
  inst_TimedOut :: bool
  inst_NetworkError :: bool
  inst_BadRequest :: bool
  inst_TelegramError :: bool
  retry_after :: "nat option"
  str_e :: pystr

text \<open>
  One call of the wrapped function either returns a value or raises. The wrapper's caller
  gets the value, \<open>None\<close>, or an exception that the wrapper lets through.
\<close>

datatype 'a attempt = Returns 'a | Raises raised_error

datatype 'a wrapped = Result 'a | NoResult | Propagated raised_error

definition max_retries :: nat where
  "max_retries = 5"

definition base_delay :: nat where
  "base_delay = 1"

definition backoff_delay :: "nat \<Rightarrow> nat" where
  "backoff_delay retry_count = min (base_delay * 2 ^ (retry_count - 1)) 30"

definition then_sleep :: "nat \<Rightarrow> ('a wrapped \<times> nat list) option \<Rightarrow> ('a wrapped \<times> nat list) option" where
  "then_sleep delay r = map_option (\<lambda>(w, slept). (w, delay # slept)) r"

text \<open>
  The \<open>while True\<close> loop of the wrapper. The wrapped function is given by the outcomes of
  its successive calls; the loop consumes one per iteration. Its value is what the caller
  gets together with the delays passed to \<open>time.sleep\<close>, in order, or \<open>None\<close> when the
  loop is still retrying after the last listed call (the loop has no bound on retries
  after a \<open>RetryAfter\<close>).
\<close>

fun wrapper :: "nat \<Rightarrow> 'a attempt list \<Rightarrow> ('a wrapped \<times> nat list) option" where
  "wrapper retry_count [] = None"
| "wrapper retry_count (Returns v # calls) = Some (Result v, [])"
| "wrapper retry_count (Raises e # calls) =
     (if inst_Unauthorized e then Some (NoResult, [])
      else if inst_RetryAfter e then
        then_sleep (case retry_after e of Some d \<Rightarrow> d | None \<Rightarrow> 10) (wrapper retry_count calls)
      else if inst_TimedOut e \<or> inst_NetworkError e then
        (if retry_count + 1 \<ge> max_retries then Some (NoResult, [])
         else then_sleep (backoff_delay (retry_count + 1)) (wrapper (retry_count + 1) calls))
      else if inst_BadRequest e then
        (if contains (py ''chat not found'') (lower (str_e e)) \<or>
            contains (py ''not found'') (lower (str_e e))
         then Some (NoResult, [])
         else Some (Propagated e, []))
      else if inst_TelegramError e then
        (if retry_count + 1 \<ge> max_retries then Some (NoResult, [])
         else then_sleep (backoff_delay (retry_count + 1)) (wrapper (retry_count + 1) calls))
      else Some (Propagated e, []))"

definition catch_telegram_errors :: "'a attempt list \<Rightarrow> ('a wrapped \<times> nat list) option" where
  "catch_telegram_errors calls = wrapper 0 calls"

text \<open>
  The errors the chain absorbs: those caught by a clause that returns \<open>None\<close> or retries.
  The two ways out of the chain that reach the caller are the \<open>raise\<close> of the
  \<open>BadRequest\<close> clause and an exception that no clause names.
\<close>

definition absorbed :: "raised_error \<Rightarrow> bool" where
  "absorbed e \<longleftrightarrow>
     inst_Unauthorized e \<or> inst_RetryAfter e \<or> inst_TimedOut e \<or> inst_NetworkError e \<or>
     (if inst_BadRequest e
      then contains (py ''chat not found'') (lower (str_e e)) \<or>
           contains (py ''not found'') (lower (str_e e))
      else inst_TelegramError e)"

fun attempt_absorbed :: "'a attempt \<Rightarrow> bool" where
  "attempt_absorbed (Returns v) = True"
| "attempt_absorbed (Raises e) = absorbed e"

fun is_retry_after :: "'a attempt \<Rightarrow> bool" where
  "is_retry_after (Returns v) = False"
| "is_retry_after (Raises e) = (\<not> inst_Unauthorized e \<and> inst_RetryAfter e)"

fun returned :: "('a wrapped \<times> nat list) option \<Rightarrow> bool" where
  "returned None = False"
| "returned (Some (Result v, slept)) = True"
| "returned (Some (NoResult, slept)) = True"
| "returned (Some (Propagated e, slept)) = False"

section \<open>The waitlist store (database.py)\<close>

text \<open>
  The two tables. A row of \<open>waitlist_entries\<close> has the columns of the class
  \<open>WaitlistEntry\<close> (\<open>id\<close> is written \<open>entry_id\<close>); a row of \<open>admins\<close> is its
  \<open>user_id\<close>. Rows are kept in insertion order.
\<close>

record WaitlistEntry =
  entry_id :: nat
  user_id :: int
  wanted_username :: pystr
  password :: pystr
  created_at :: nat

record store =
  admins :: "int list"
  waitlist_entries :: "WaitlistEntry list"

datatype exn = AttributeError | IntegrityError

text \<open>The queries that \<open>main\<close> runs on a session.\<close>

definition is_admin_query :: "store \<Rightarrow> int \<Rightarrow> bool" where
  "is_admin_query st uid \<longleftrightarrow> uid \<in> set (admins st)"

definition entry_query :: "store \<Rightarrow> int \<Rightarrow> WaitlistEntry option" where
  "entry_query st uid = find (\<lambda>e. user_id e = uid) (waitlist_entries st)"

definition admin_count :: "store \<Rightarrow> nat" where
  "admin_count st = length (admins st)"

definition existing_query :: "store \<Rightarrow> pystr \<Rightarrow> WaitlistEntry option" where
  "existing_query st name = find (\<lambda>e. wanted_username e = name) (waitlist_entries st)"

text \<open>
  \<open>order_by(WaitlistEntry.created_at.asc()).all()\<close>: all rows by ascending timestamp.
  The query names no other key, so the order among rows with equal timestamps is the
  database's own. The model takes it from \<open>tie\<close>, a rank that the environment gives to
  every row: rows with equal timestamps come by ascending rank.
\<close>

definition entries_ordered :: "(WaitlistEntry \<Rightarrow> nat) \<Rightarrow> store \<Rightarrow> WaitlistEntry list" where
  "entries_ordered tie st = sort_key created_at (sort_key tie (waitlist_entries st))"

text \<open>
  \<open>session.add(WaitlistEntry(...)); session.commit()\<close>. The \<open>unique=True\<close> of
  \<open>wanted_username\<close> makes the commit raise when the username is already in the
  table. A new entry gets the next \<open>id\<close> and the clock's \<open>utcnow\<close>.
\<close>

definition next_id :: "store \<Rightarrow> nat" where
  "next_id st = Suc (foldr max (map entry_id (waitlist_entries st)) 0)"

definition add_entry_commit :: "store \<Rightarrow> int \<Rightarrow> pystr \<Rightarrow> pystr \<Rightarrow> nat \<Rightarrow> exn + store" where
  "add_entry_commit st uid name pw now =
     (if list_ex (\<lambda>e. wanted_username e = name) (waitlist_entries st) then Inl IntegrityError
      else Inr (st\<lparr>waitlist_entries := waitlist_entries st @
             [\<lparr>entry_id = next_id st, user_id = uid, wanted_username = name,
               password = pw, created_at = now\<rparr>]\<rparr>))"

section \<open>Message texts (strings/en.py)\<close>

text \<open>
  The two button labels are compared with the inbound text, so they are kept as strings
  (the first code point of each is an emoji). The texts that are only sent are
  identified by their names in \<open>strings/en.py\<close>.
\<close>

definition msg_coming_soon_btn :: pystr where
  "msg_coming_soon_btn = 128640 # py '' Coming soon''"

definition msg_admin_download :: pystr where
  "msg_admin_download = 128229 # py '' Download users .txt file''"

datatype strings_text =
    msg_ask_username
  | msg_username_taken
  | msg_username_invalid
  | msg_registered
  | msg_welcome_back
  | msg_coming_soon_response
  | msg_file_caption
  | msg_first_admin
  | msg_admin_menu
  | msg_private_only

section \<open>Update processing (bot.py, \<open>main\<close>)\<close>

datatype keyboard = user_keyboard | admin_keyboard

text \<open>
  What processing an update does to the outside: the calls on the bot (chat, text and
  \<open>reply_markup\<close>; chat, file content, file name and caption), whose return value
  \<open>main\<close> discards, and the operations on the store session.
\<close>

datatype outbound =
    send_message int strings_text "keyboard option"
  | send_document int pystr pystr strings_text

datatype db_op =
    session_open
  | query_admin int
  | query_entry int
  | query_admin_count
  | add_admin int
  | query_entries_ordered
  | query_existing pystr
  | add_entry int pystr
  | commit
  | session_close

text \<open>
  An inbound update: \<open>update.message\<close> may be absent; a message has
  \<open>chat.id\<close>, \<open>chat.type\<close>, \<open>from_user\<close> (its \<open>id\<close>, or absent) and \<open>text\<close>
  (or absent).
\<close>

record message =
  chat_id :: int
  chat_type :: pystr
  from_user :: "int option"
  text_opt :: "pystr option"

record update =
  update_id :: int
  message :: "message option"

text \<open>
  What the environment supplies while one update is processed: the clock, the random
  source, and the rank by which the database lists rows that a query does not order.
\<close>

record env =
  utcnow :: nat
  draw :: "nat \<Rightarrow> nat"
  tie_rank :: "WaitlistEntry \<Rightarrow> nat"

type_synonym user_states = "int \<rightharpoonup> pystr"

definition awaiting_username :: pystr where
  "awaiting_username = py ''awaiting_username''"

record result =
  r_store :: store
  r_states :: user_states
  sent :: "outbound list"
  db :: "db_op list"
  raised :: "exn option"

text \<open>\<open>str(i)\<close> for a natural number, and \<open>sep.join(lines)\<close>.\<close>

fun str_nat :: "nat \<Rightarrow> pystr" where
  "str_nat n = (if n < 10 then [48 + n] else str_nat (n div 10) @ [48 + n mod 10])"

fun join :: "pystr \<Rightarrow> pystr list \<Rightarrow> pystr" where
  "join sep [] = []"
| "join sep [x] = x"
| "join sep (x # y # ys) = x @ sep @ join sep (y # ys)"

text \<open>The lines and the content of the export file.\<close>

definition export_line :: "nat \<times> WaitlistEntry \<Rightarrow> pystr" where
  "export_line p = (case p of (i, e) \<Rightarrow>
     str_nat i @ py ''. '' @ wanted_username e @ py '' '' @ password e)"

definition export_content :: "WaitlistEntry list \<Rightarrow> pystr" where
  "export_content entries = join [10] (map export_line (enumerate 1 entries))"

text \<open>
  The branch \<open>if text == "/start"\<close>. The admin row is added only when the table
  \<open>admins\<close> is empty, so that commit cannot violate the primary key.
\<close>

definition handle_start :: "store \<Rightarrow> user_states \<Rightarrow> int \<Rightarrow> int \<Rightarrow> result" where
  "handle_start st user_states chat uid =
     (let is_admin0 = is_admin_query st uid;
          entry = entry_query st uid;
          user_states1 = user_states(chat := None);
          promote = (admin_count st = 0);
          st1 = (if promote then st\<lparr>admins := admins st @ [uid]\<rparr> else st);
          is_admin = (is_admin0 \<or> promote);
          sent1 = (if promote then [send_message chat msg_first_admin None] else []);
          db1 = [query_admin_count] @ (if promote then [add_admin uid, commit] else [])
      in if is_admin \<and> entry \<noteq> None then
           \<lparr>r_store = st1, r_states = user_states1,
            sent = sent1 @ [send_message chat msg_admin_menu (Some admin_keyboard)],
            db = db1, raised = None\<rparr>
         else if entry \<noteq> None then
           \<lparr>r_store = st1, r_states = user_states1,
            sent = sent1 @ [send_message chat msg_welcome_back (Some user_keyboard)],
            db = db1, raised = None\<rparr>
         else
           \<lparr>r_store = st1, r_states = user_states1(chat \<mapsto> awaiting_username),
            sent = sent1 @ [send_message chat msg_ask_username None],
            db = db1, raised = None\<rparr>)"

text \<open>The branch \<open>if is_admin and text == strings.msg_admin_download\<close>.\<close>

definition handle_download :: "env \<Rightarrow> store \<Rightarrow> user_states \<Rightarrow> int \<Rightarrow> result" where
  "handle_download ev st user_states chat =
     \<lparr>r_store = st, r_states = user_states,
      sent = [send_document chat (export_content (entries_ordered (tie_rank ev) st))
                (py ''users.txt'')
                msg_file_caption],
      db = [query_entries_ordered], raised = None\<rparr>"

text \<open>
  The branch \<open>if user_states.get(chat_id) == "awaiting_username" and text\<close>. \<open>racing\<close>
  are the rows that other writers of the same database commit between this session's
  uniqueness query and its own commit; the dispatch loop of a bot that is the only
  writer runs with none.
\<close>

definition handle_username ::
  "WaitlistEntry list \<Rightarrow> env \<Rightarrow> store \<Rightarrow> user_states \<Rightarrow> int \<Rightarrow> int \<Rightarrow> pystr \<Rightarrow> result" where
  "handle_username racing ev st user_states chat uid txt =
     (case normalize_username txt of
        None \<Rightarrow>
          \<lparr>r_store = st, r_states = user_states,
           sent = [send_message chat msg_username_invalid None], db = [], raised = None\<rparr>
      | Some username_norm \<Rightarrow>
          (case existing_query st username_norm of
             Some existing \<Rightarrow>
               \<lparr>r_store = st, r_states = user_states,
                sent = [send_message chat msg_username_taken None],
                db = [query_existing username_norm], raised = None\<rparr>
           | None \<Rightarrow>
               (let pw = generate_password (draw ev) 12;
                    st_now = st\<lparr>waitlist_entries := waitlist_entries st @ racing\<rparr>;
                    ops = [query_existing username_norm, add_entry uid username_norm, commit]
                in case add_entry_commit st_now uid username_norm pw (utcnow ev) of
                     Inl e \<Rightarrow>
                       \<lparr>r_store = st_now, r_states = user_states, sent = [], db = ops,
                        raised = Some e\<rparr>
                   | Inr st' \<Rightarrow>
                       \<lparr>r_store = st', r_states = user_states(chat := None),
                        sent = [send_message chat msg_registered (Some user_keyboard)],
                        db = ops, raised = None\<rparr>)))"

text \<open>
  The body of \<open>try: ... finally: session.close()\<close> for a private message of a known
  sender: the two queries, then the first branch whose condition holds.
\<close>

definition dispatch ::
  "WaitlistEntry list \<Rightarrow> env \<Rightarrow> store \<Rightarrow> user_states \<Rightarrow> int \<Rightarrow> int \<Rightarrow> pystr \<Rightarrow> result" where
  "dispatch racing ev st user_states chat uid txt =
     (let is_admin = is_admin_query st uid;
          entry = entry_query st uid
      in if txt = py ''/start'' then handle_start st user_states chat uid
         else if entry \<noteq> None \<and> txt = msg_coming_soon_btn then
           \<lparr>r_store = st, r_states = user_states,
            sent = [send_message chat msg_coming_soon_response None], db = [], raised = None\<rparr>
         else if is_admin \<and> txt = msg_admin_download then handle_download ev st user_states chat
         else if user_states chat = Some awaiting_username \<and> txt \<noteq> [] then
           handle_username racing ev st user_states chat uid txt
         else \<lparr>r_store = st, r_states = user_states, sent = [], db = [], raised = None\<rparr>)"

text \<open>\<open>text = (update.message.text or "").strip()\<close>\<close>

definition stripped_text :: "message \<Rightarrow> pystr" where
  "stripped_text m = strip (case text_opt m of None \<Rightarrow> [] | Some t \<Rightarrow> t)"

text \<open>
  One iteration of \<open>for update in updates\<close>. An update without message is skipped; a
  message outside a private chat gets the notice; otherwise a session is opened, and
  closed on every way out. \<open>from_user.id\<close> raises when \<open>from_user\<close> is absent.
\<close>

definition process_update ::
  "WaitlistEntry list \<Rightarrow> env \<Rightarrow> store \<Rightarrow> user_states \<Rightarrow> update \<Rightarrow> result" where
  "process_update racing ev st user_states upd =
     (case message upd of
        None \<Rightarrow> \<lparr>r_store = st, r_states = user_states, sent = [], db = [], raised = None\<rparr>
      | Some m \<Rightarrow>
          (let chat = chat_id m;
               txt = stripped_text m
           in if chat_type m \<noteq> py ''private'' then
                \<lparr>r_store = st, r_states = user_states,
                 sent = [send_message chat msg_private_only None], db = [], raised = None\<rparr>
              else
                (case from_user m of
                   None \<Rightarrow>
                     \<lparr>r_store = st, r_states = user_states, sent = [],
                      db = [session_open, session_close], raised = Some AttributeError\<rparr>
                 | Some uid \<Rightarrow>
                     (let r = dispatch racing ev st user_states chat uid txt
                      in r\<lparr>db := [session_open, query_admin uid, query_entry uid] @ db r @
                                  [session_close]\<rparr>))))"

text \<open>
  The loop over the updates, one at a time and in order, for a bot that is the only
  writer of its database. An exception leaves the loop (and \<open>main\<close>): the updates
  after it are not processed.
\<close>

fun process_updates :: "store \<Rightarrow> user_states \<Rightarrow> (env \<times> update) list \<Rightarrow> result" where
  "process_updates st user_states [] =
     \<lparr>r_store = st, r_states = user_states, sent = [], db = [], raised = None\<rparr>"
| "process_updates st user_states ((ev, upd) # rest) =
     (let r = process_update [] ev st user_states upd
      in case raised r of
           Some e \<Rightarrow> r
         | None \<Rightarrow>
             (let r' = process_updates (r_store r) (r_states r) rest
              in r'\<lparr>sent := sent r @ sent r', db := db r @ db r'\<rparr>))"

definition empty_store :: store where
  "empty_store = \<lparr>admins = [], waitlist_entries = []\<rparr>"

text \<open>
  The platform identifies a private chat by its user: in a message of a private chat,
  \<open>chat.id\<close> is the sender's id.
\<close>

definition private_chat_of_sender :: "update \<Rightarrow> bool" where
  "private_chat_of_sender upd =
     (case message upd of
        None \<Rightarrow> True
      | Some m \<Rightarrow> chat_type m \<noteq> py ''private'' \<or> from_user m = Some (chat_id m))"

text \<open>
  The two facts that hold between updates: no user has two entries, and a chat that is
  awaiting a username belongs to a user without entry.
\<close>

definition one_entry_per_user :: "store \<Rightarrow> bool" where
  "one_entry_per_user st \<longleftrightarrow> distinct (map user_id (waitlist_entries st))"

definition awaiting_have_no_entry :: "store \<Rightarrow> user_states \<Rightarrow> bool" where
  "awaiting_have_no_entry st user_states \<longleftrightarrow>
     (\<forall>c. user_states c = Some awaiting_username \<longrightarrow> entry_query st c = None)"

section \<open>Sample inputs\<close>

text \<open>Concrete inputs at which the theorems below are instantiated.\<close>

definition sample_env :: env where
  "sample_env = \<lparr>utcnow = 100, draw = (\<lambda>i. 7 * i), tie_rank = entry_id\<rparr>"

definition private_message :: "int \<Rightarrow> pystr \<Rightarrow> update" where
  "private_message uid txt =
     \<lparr>update_id = 1,
      message = Some \<lparr>chat_id = uid, chat_type = py ''private'', from_user = Some uid,
                      text_opt = Some txt\<rparr>\<rparr>"

definition foreign_error :: raised_error where
  "foreign_error =
     \<lparr>inst_Unauthorized = False, inst_RetryAfter = False, inst_TimedOut = False,
      inst_NetworkError = False, inst_BadRequest = False, inst_TelegramError = False,
      retry_after = None, str_e = py ''invalid literal''\<rparr>"

definition flood_error :: raised_error where
  "flood_error = foreign_error\<lparr>inst_RetryAfter := True, inst_TelegramError := True,
     retry_after := Some 3, str_e := py ''Flood control exceeded''\<rparr>"

definition timeout_error :: raised_error where
  "timeout_error = foreign_error\<lparr>inst_TimedOut := True, inst_NetworkError := True,
     inst_TelegramError := True, str_e := py ''Timed out''\<rparr>"

definition alice_entry :: WaitlistEntry where
  "alice_entry = \<lparr>entry_id = 1, user_id = 7, wanted_username = py ''@alice_1'',
     password = py ''pw'', created_at = 50\<rparr>"

definition bobby_entry :: WaitlistEntry where
  "bobby_entry = \<lparr>entry_id = 5, user_id = 8, wanted_username = py ''@bobby_2'',
     password = py ''qx'', created_at = 20\<rparr>"

definition sample_store :: store where
  "sample_store = \<lparr>admins = [7], waitlist_entries = [alice_entry, bobby_entry]\<rparr>"

definition admin_only_store :: store where
  "admin_only_store = \<lparr>admins = [1001], waitlist_entries = []\<rparr>"

definition group_message :: "int \<Rightarrow> int \<Rightarrow> pystr \<Rightarrow> message" where
  "group_message chat uid txt =
     \<lparr>chat_id = chat, chat_type = py ''group'', from_user = Some uid, text_opt = Some txt\<rparr>"

section \<open>Properties of the username normalizer\<close>

lemma rematch_Class_eta: "rematch (Class rs) = class_step rs"
  by (rule ext) simp

lemma repeat_match_suffix:
  "u \<in> set (repeat_match (class_step rs) m n s) \<Longrightarrow> \<exists>k. u = drop k s"
proof (induction n arbitrary: m s)
  case 0
  then show ?case by (auto split: if_splits intro: exI[of _ 0])
next
  case (Suc n)
  show ?case
  proof (cases s)
    case Nil
    with Suc.prems show ?thesis by (auto split: if_splits)
  next
    case (Cons x xs)
    from Suc.prems Cons consider "u = s" | "u \<in> set (repeat_match (class_step rs) (m - 1) n xs)"
      by (auto split: if_splits)
    then show ?thesis
    proof cases
      case 1
      then show ?thesis by (auto intro: exI[of _ 0])
    next
      case 2
      from Suc.IH[OF 2] obtain k where "u = drop k xs" by blast
      then have "u = drop (Suc k) s" using Cons by simp
      then show ?thesis by blast
    qed
  qed
qed

lemma repeat_match_Nil:
  "[] \<in> set (repeat_match (class_step rs) m n s) \<longleftrightarrow>
     m \<le> length s \<and> length s \<le> n \<and> list_all (in_class rs) s"
proof (induction n arbitrary: m s)
  case 0
  then show ?case by auto
next
  case (Suc n)
  show ?case
  proof (cases s)
    case Nil
    then show ?thesis by auto
  next
    case (Cons x xs)
    then show ?thesis using Suc.IH[of "m - 1" xs] by auto
  qed
qed

lemma strip_last: "strip s \<noteq> [] \<Longrightarrow> \<not> isspace (last (strip s))"
  unfolding strip_def
  by (metis hd_dropWhile last_rev rev_is_Nil_conv)

lemma in_class_letters: "in_class [(97, 122), (65, 90)] c = is_letter c"
  by (simp add: in_class_def is_letter_def)

lemma in_class_word: "in_class [(97, 122), (65, 90), (48, 57), (95, 95)] c = (is_letter c \<or> is_digit c \<or> c = 95)"
  by (auto simp add: in_class_def is_letter_def is_digit_def)

lemma filter_at_dollar:
  assumes "s \<noteq> [] \<Longrightarrow> last s \<noteq> 10"
  shows "set (filter at_dollar (repeat_match (class_step rs) m n s)) \<subseteq> {[]}"
proof
  fix u assume "u \<in> set (filter at_dollar (repeat_match (class_step rs) m n s))"
  then have u: "u \<in> set (repeat_match (class_step rs) m n s)" and d: "at_dollar u" by auto
  from repeat_match_suffix[OF u] obtain k where k: "u = drop k s" by blast
  have "u \<noteq> [10]"
  proof
    assume e: "u = [10]"
    with k have "k < length s" by (metis drop_all not_le list.distinct(1))
    then have "last (drop k s) = last s" by simp
    with e k have "last s = 10" by simp
    moreover from e k have "s \<noteq> []" by auto
    ultimately show False using assms by simp
  qed
  with d show "u \<in> {[]}" by (simp add: at_dollar_def)
qed

lemma first_of_singleton_set:
  "set L \<subseteq> {a} \<Longrightarrow> (case L of [] \<Rightarrow> n | x # _ \<Rightarrow> f x) = (if a \<in> set L then f a else n)"
  by (cases L) auto

lemma grp_candidates:
  assumes nl: "t \<noteq> [] \<Longrightarrow> last t \<noteq> 10"
  shows "(case map (Pair t) (filter at_dollar (rematch USERNAME_RE_grp t)) of
            [] \<Rightarrow> None
          | (t', u) # _ \<Rightarrow> Some (take (length t' - length u) t'))
         = (if handle_ok t then Some t else None)"
proof (cases t)
  case Nil
  then show ?thesis by (simp add: USERNAME_RE_grp_def handle_ok_def)
next
  case (Cons x xs)
  let ?cls = "[(97, 122), (65, 90), (48, 57), (95, 95)] :: (nat \<times> nat) list"
  let ?L = "filter at_dollar (repeat_match (class_step ?cls) 4 31 xs)"
  show ?thesis
  proof (cases "is_letter x")
    case False
    then show ?thesis using Cons
      by (simp add: USERNAME_RE_grp_def handle_ok_def in_class_letters)
  next
    case True
    have g: "rematch USERNAME_RE_grp t = repeat_match (class_step ?cls) 4 31 xs"
      using True Cons by (simp add: USERNAME_RE_grp_def in_class_letters rematch_Class_eta)
    have "xs \<noteq> [] \<Longrightarrow> last xs \<noteq> 10" using nl Cons by simp
    then have sub: "set ?L \<subseteq> {[]}" by (rule filter_at_dollar)
    have "[] \<in> set ?L \<longleftrightarrow> [] \<in> set (repeat_match (class_step ?cls) 4 31 xs)"
      by (simp add: at_dollar_def)
    also have "\<dots> \<longleftrightarrow> 4 \<le> length xs \<and> length xs \<le> 31 \<and> list_all (in_class ?cls) xs"
      by (rule repeat_match_Nil)
    also have "\<dots> \<longleftrightarrow> 4 \<le> length xs \<and> length xs \<le> 31 \<and>
        (\<forall>c\<in>set xs. is_letter c \<or> is_digit c \<or> c = 95)"
      by (simp add: list_all_iff in_class_word)
    also have "\<dots> \<longleftrightarrow> handle_ok t"
      using True Cons by (auto simp add: handle_ok_def list_all_iff)
    finally have mem: "[] \<in> set ?L \<longleftrightarrow> handle_ok t" .
    have "(case map (Pair t) ?L of [] \<Rightarrow> None
            | (t', u) # _ \<Rightarrow> Some (take (length t' - length u) t'))
          = (case ?L of [] \<Rightarrow> None | u # _ \<Rightarrow> Some (take (length t - length u) t))"
      by (cases ?L) simp_all
    also have "\<dots> = (if [] \<in> set ?L then Some (take (length t - length ([]::pystr)) t) else None)"
      using sub by (rule first_of_singleton_set)
    also have "\<dots> = (if handle_ok t then Some t else None)"
      unfolding mem by simp
    finally show ?thesis by (simp only: g)
  qed
qed

lemma USERNAME_RE_match_eq:
  assumes nl: "s \<noteq> [] \<Longrightarrow> last s \<noteq> 10"
  shows "USERNAME_RE_match s = (if handle_ok (re_body s) then Some (re_body s) else None)"
proof (cases s)
  case Nil
  then show ?thesis
    by (simp add: USERNAME_RE_match_def re_match_group1_def USERNAME_RE_pre_def
        USERNAME_RE_grp_def re_body_def handle_ok_def)
next
  case (Cons c cs)
  show ?thesis
  proof (cases "c = 64")
    case True
    have nogrp: "rematch USERNAME_RE_grp s = []"
      using Cons True by (simp add: USERNAME_RE_grp_def in_class_def)
    have pre: "rematch USERNAME_RE_pre s = [cs, s]"
      using Cons True by (simp add: USERNAME_RE_pre_def)
    have nl': "cs \<noteq> [] \<Longrightarrow> last cs \<noteq> 10" using nl Cons by simp
    have b: "re_body s = cs" using Cons True by (simp add: re_body_def)
    have "USERNAME_RE_match s =
        (case map (Pair cs) (filter at_dollar (rematch USERNAME_RE_grp cs)) of
            [] \<Rightarrow> None
          | (t', u) # _ \<Rightarrow> Some (take (length t' - length u) t'))"
      by (simp add: USERNAME_RE_match_def re_match_group1_def pre nogrp)
    also have "\<dots> = (if handle_ok cs then Some cs else None)"
      using nl' by (rule grp_candidates)
    finally show ?thesis by (simp add: b)
  next
    case False
    have pre: "rematch USERNAME_RE_pre s = [s]"
      using Cons False by (simp add: USERNAME_RE_pre_def)
    have b: "re_body s = s" using Cons False by (simp add: re_body_def)
    have "USERNAME_RE_match s =
        (case map (Pair s) (filter at_dollar (rematch USERNAME_RE_grp s)) of
            [] \<Rightarrow> None
          | (t', u) # _ \<Rightarrow> Some (take (length t' - length u) t'))"
      by (simp add: USERNAME_RE_match_def re_match_group1_def pre)
    also have "\<dots> = (if handle_ok s then Some s else None)"
      using nl by (rule grp_candidates)
    finally show ?thesis by (simp add: b)
  qed
qed

lemma handle_form_body: "handle_form s t \<longleftrightarrow> handle_ok t \<and> t = re_body s \<and> s \<noteq> []"
  by (cases s; cases t) (auto simp add: handle_form_def handle_ok_def re_body_def is_letter_def)

lemma strip_no_newline: "strip s \<noteq> [] \<Longrightarrow> last (strip s) \<noteq> 10"
  using strip_last[of s] by (auto simp add: isspace_def)

lemma normalize_username_eq:
  "normalize_username raw =
     (if handle_ok (re_body (strip raw)) then Some (py ''@'' @ lower (re_body (strip raw))) else None)"
proof -
  have e: "strip raw = [] \<Longrightarrow> \<not> handle_ok (re_body (strip raw))"
    by (simp add: re_body_def handle_ok_def)
  show ?thesis
    using e USERNAME_RE_match_eq[OF strip_no_newline, of raw]
    by (auto simp add: normalize_username_def Let_def)
qed

lemma py_at: "py ''@'' = [64]"
  by (simp add: py_def)

text \<open>
  Claim C5. \<open>normalize_username\<close> returns a string exactly when the trimmed input is an
  optional \<open>@\<close> followed by a text that starts with a letter and has 5 to 32 characters,
  all letters, digits or underscore; the result is then \<open>@\<close> followed by the lower-cased
  text. On every other input (empty after trimming, wrong length, another character,
  the marker alone) it returns \<open>None\<close>.
\<close>

theorem normalize_username_spec:
  "(normalize_username raw = Some r \<longleftrightarrow>
      (\<exists>t. handle_form (strip raw) t \<and> r = py ''@'' @ lower t)) \<and>
   (normalize_username raw = None \<longleftrightarrow> (\<nexists>t. handle_form (strip raw) t))"
proof -
  have a: "(\<exists>t. handle_form (strip raw) t \<and> r = py ''@'' @ lower t) \<longleftrightarrow>
      handle_ok (re_body (strip raw)) \<and> r = py ''@'' @ lower (re_body (strip raw))"
    by (auto simp add: handle_form_body re_body_def handle_ok_def)
  have b: "(\<exists>t. handle_form (strip raw) t) \<longleftrightarrow> handle_ok (re_body (strip raw))"
    by (auto simp add: handle_form_body re_body_def handle_ok_def)
  show ?thesis unfolding a b by (auto simp add: normalize_username_eq)
qed

theorem normalize_username_spec_witness:
  "normalize_username (py ''  @My_Name1 '') = Some (py ''@my_name1'') \<and>
   normalize_username (py ''@'') = None"
proof -
  have "handle_form (strip (py ''  @My_Name1 '')) (py ''My_Name1'') \<and>
        py ''@my_name1'' = py ''@'' @ lower (py ''My_Name1'')"
    by code_simp
  then have "\<exists>t. handle_form (strip (py ''  @My_Name1 '')) t \<and>
        py ''@my_name1'' = py ''@'' @ lower t"
    by blast
  then have "normalize_username (py ''  @My_Name1 '') = Some (py ''@my_name1'')"
    using normalize_username_spec[of "py ''  @My_Name1 ''" "py ''@my_name1''"] by blast
  moreover have "normalize_username (py ''@'') = None" by code_simp
  ultimately show ?thesis by blast
qed

lemma strip_id:
  assumes "s \<noteq> []" and "\<not> isspace (hd s)" and "\<not> isspace (last s)"
  shows "strip s = s"
proof -
  have a: "dropWhile isspace s = s"
    using assms(2) by (simp add: dropWhile_eq_self_iff)
  have "hd (rev s) = last s" using assms(1) by (simp add: hd_rev)
  then have b: "dropWhile isspace (rev s) = rev s"
    using assms(3) by (simp add: dropWhile_eq_self_iff)
  show ?thesis by (simp add: strip_def a b)
qed

lemma lower_char_idem: "lower_char (lower_char c) = lower_char c"
  by (simp add: lower_char_def)

lemma lower_idem: "lower (lower s) = lower s"
  by (simp add: lower_def lower_char_idem)

lemma lower_char_word:
  "is_letter c \<Longrightarrow> is_letter (lower_char c)"
  "is_letter c \<or> is_digit c \<or> c = 95 \<Longrightarrow> is_letter (lower_char c) \<or> is_digit (lower_char c) \<or> lower_char c = 95"
  by (auto simp add: lower_char_def is_letter_def is_digit_def)

lemma handle_ok_lower: "handle_ok t \<Longrightarrow> handle_ok (lower t)"
  by (cases t) (auto simp add: handle_ok_def lower_def list_all_iff lower_char_word)

lemma word_not_space: "is_letter c \<or> is_digit c \<or> c = 95 \<Longrightarrow> \<not> isspace c"
  by (auto simp add: is_letter_def is_digit_def isspace_def)

lemma handle_ok_last: "handle_ok t \<Longrightarrow> \<not> isspace (last t)"
proof -
  assume h: "handle_ok t"
  then have "t \<noteq> []" by (auto simp add: handle_ok_def)
  then have "last t \<in> set t" by simp
  moreover from h have "\<forall>c\<in>set t. is_letter c \<or> is_digit c \<or> c = 95"
    by (simp add: handle_ok_def list_all_iff)
  ultimately have "is_letter (last t) \<or> is_digit (last t) \<or> last t = 95" by blast
  then show ?thesis by (rule word_not_space)
qed

text \<open>
  Claim C6. Where \<open>normalize_username\<close> is defined, its output is a fixed point:
  normalizing the output again returns it unchanged.
\<close>

theorem normalize_username_idempotent:
  assumes "normalize_username x = Some y"
  shows "normalize_username y = Some y"
proof -
  let ?b = "re_body (strip x)"
  from assms have ok: "handle_ok ?b" and y: "y = 64 # lower ?b"
    by (auto simp add: normalize_username_eq py_at split: if_splits)
  have okl: "handle_ok (lower ?b)" using ok by (rule handle_ok_lower)
  then have ne: "lower ?b \<noteq> []" by (auto simp add: handle_ok_def)
  have "\<not> isspace (last y)" using handle_ok_last[OF okl] ne y by simp
  moreover have "\<not> isspace (hd y)" using y by (simp add: isspace_def)
  ultimately have s: "strip y = y" using y by (intro strip_id) simp_all
  have b: "re_body y = lower ?b" using y by (simp add: re_body_def)
  have "normalize_username y = Some (py ''@'' @ lower (lower ?b))"
    by (simp only: normalize_username_eq s b okl if_True)
  then show ?thesis by (simp add: lower_idem py_at y)
qed

theorem normalize_username_idempotent_witness:
  "normalize_username (py '' My_Name1'') = Some (py ''@my_name1'') \<and>
   normalize_username (py ''@my_name1'') = Some (py ''@my_name1'')"
proof -
  have a: "normalize_username (py '' My_Name1'') = Some (py ''@my_name1'')" by code_simp
  from normalize_username_idempotent[OF a] a show ?thesis by blast
qed

lemma normalize_empty: "normalize_username [] = None"
  by (simp add: normalize_username_def strip_def)

lemma normalize_start: "normalize_username (py ''/start'') = None"
  by (simp add: normalize_username_eq strip_def isspace_def py_def re_body_def handle_ok_def
      is_letter_def)

lemma normalize_coming_soon: "normalize_username msg_coming_soon_btn = None"
  by (simp add: normalize_username_eq strip_def isspace_def py_def re_body_def handle_ok_def
      is_letter_def msg_coming_soon_btn_def)

lemma normalize_download: "normalize_username msg_admin_download = None"
  by (simp add: normalize_username_eq strip_def isspace_def py_def re_body_def handle_ok_def
      is_letter_def msg_admin_download_def)

lemmas normalize_not_commands =
  normalize_empty normalize_start normalize_coming_soon normalize_download

section \<open>Properties of the resilient call wrapper\<close>

lemma then_sleep_None: "then_sleep d r = None \<longleftrightarrow> r = None"
  by (simp add: then_sleep_def)

lemma then_sleep_returned: "returned (then_sleep d r) = returned r"
  by (cases r rule: returned.cases) (simp_all add: then_sleep_def)

lemma then_sleep_Propagated:
  "then_sleep d r = Some (Propagated e, sl) \<Longrightarrow> \<exists>sl'. r = Some (Propagated e, sl')"
  by (cases r) (auto simp add: then_sleep_def split: prod.splits)

lemma wrapper_absorbed:
  "list_all attempt_absorbed calls \<Longrightarrow> wrapper rc calls \<noteq> Some (Propagated e', sl)"
proof (induction rc calls arbitrary: sl rule: wrapper.induct)
  case (1 rc)
  then show ?case by simp
next
  case (2 rc v calls)
  then show ?case by simp
next
  case (3 rc e calls)
  from "3.prems" have a: "absorbed e" and rest: "list_all attempt_absorbed calls" by simp_all
  show ?case
  proof
    assume p: "wrapper rc (Raises e # calls) = Some (Propagated e', sl)"
    consider (u) "inst_Unauthorized e"
      | (r) "\<not> inst_Unauthorized e" "inst_RetryAfter e"
      | (n) "\<not> inst_Unauthorized e" "\<not> inst_RetryAfter e" "inst_TimedOut e \<or> inst_NetworkError e"
      | (b) "\<not> inst_Unauthorized e" "\<not> inst_RetryAfter e" "\<not> (inst_TimedOut e \<or> inst_NetworkError e)"
            "inst_BadRequest e"
      | (t) "\<not> inst_Unauthorized e" "\<not> inst_RetryAfter e" "\<not> (inst_TimedOut e \<or> inst_NetworkError e)"
            "\<not> inst_BadRequest e" "inst_TelegramError e"
      using a by (auto simp add: absorbed_def split: if_splits)
    then show False
    proof cases
      case u
      with p show False by simp
    next
      case r
      with p have "then_sleep (case retry_after e of Some d \<Rightarrow> d | None \<Rightarrow> 10) (wrapper rc calls) =
          Some (Propagated e', sl)"
        by simp
      then obtain sl' where "wrapper rc calls = Some (Propagated e', sl')"
        by (blast dest: then_sleep_Propagated)
      moreover have "wrapper rc calls \<noteq> Some (Propagated e', sl')"
        using "3.IH"(1) r rest by blast
      ultimately show False by simp
    next
      case n
      with p have q: "\<not> max_retries \<le> rc + 1"
        and "then_sleep (backoff_delay (rc + 1)) (wrapper (rc + 1) calls) = Some (Propagated e', sl)"
        by (auto split: if_splits)
      then obtain sl' where "wrapper (rc + 1) calls = Some (Propagated e', sl')"
        by (blast dest: then_sleep_Propagated)
      moreover have "wrapper (rc + 1) calls \<noteq> Some (Propagated e', sl')"
        using "3.IH"(2) n q rest by blast
      ultimately show False by simp
    next
      case b
      with a have "contains (py ''chat not found'') (lower (str_e e)) \<or>
          contains (py ''not found'') (lower (str_e e))"
        by (simp add: absorbed_def)
      with p b show False by simp
    next
      case t
      with p have q: "\<not> max_retries \<le> rc + 1"
        and "then_sleep (backoff_delay (rc + 1)) (wrapper (rc + 1) calls) = Some (Propagated e', sl)"
        by (auto split: if_splits)
      then obtain sl' where "wrapper (rc + 1) calls = Some (Propagated e', sl')"
        by (blast dest: then_sleep_Propagated)
      moreover have "wrapper (rc + 1) calls \<noteq> Some (Propagated e', sl')"
        using "3.IH"(3) t q rest by blast
      ultimately show False by simp
    qed
  qed
qed

lemma wrapper_returns:
  "0 < length (filter (\<lambda>a. \<not> is_retry_after a) calls) \<Longrightarrow>
   max_retries \<le> rc + length (filter (\<lambda>a. \<not> is_retry_after a) calls) \<Longrightarrow>
   wrapper rc calls \<noteq> None"
proof (induction rc calls rule: wrapper.induct)
  case (1 rc)
  then show ?case by simp
next
  case (2 rc v calls)
  then show ?case by simp
next
  case (3 rc e calls)
  let ?k = "length (filter (\<lambda>a. \<not> is_retry_after a) calls)"
  consider (u) "inst_Unauthorized e"
    | (r) "\<not> inst_Unauthorized e" "inst_RetryAfter e"
    | (o) "\<not> inst_Unauthorized e" "\<not> inst_RetryAfter e"
    by blast
  then show ?case
  proof cases
    case u
    then show ?thesis by simp
  next
    case r
    then have "0 < ?k" and "max_retries \<le> rc + ?k" using "3.prems" by simp_all
    then have "wrapper rc calls \<noteq> None" using "3.IH"(1) r by blast
    then show ?thesis using r by (simp add: then_sleep_None)
  next
    case o
    show ?thesis
    proof (cases "max_retries \<le> rc + 1")
      case True
      then show ?thesis using o by simp
    next
      case big: False
      from o "3.prems" have k: "max_retries \<le> rc + Suc ?k" by simp
      with big have c: "0 < ?k" by linarith
      from k have d: "max_retries \<le> (rc + 1) + ?k" by simp
      show ?thesis
      proof (cases "inst_TimedOut e \<or> inst_NetworkError e")
        case True
        have "wrapper (rc + 1) calls \<noteq> None" using "3.IH"(2) o True big c d by blast
        then show ?thesis using o True big by (simp add: then_sleep_None)
      next
        case nn: False
        show ?thesis
        proof (cases "inst_BadRequest e")
          case True
          then show ?thesis using o nn by simp
        next
          case nb: False
          show ?thesis
          proof (cases "inst_TelegramError e")
            case True
            have "wrapper (rc + 1) calls \<noteq> None" using "3.IH"(3) o nn nb True big c d by blast
            then show ?thesis using o nn nb True big by (simp add: then_sleep_None)
          next
            case False
            then show ?thesis using o nn nb by simp
          qed
        qed
      qed
    qed
  qed
qed

lemma not_propagated_returned:
  "r \<noteq> None \<Longrightarrow> (\<forall>e sl. r \<noteq> Some (Propagated e, sl)) \<Longrightarrow> returned r"
  by (cases r rule: returned.cases) auto

lemma wrapper_propagates_unabsorbed:
  "\<not> absorbed e \<Longrightarrow> catch_telegram_errors (Raises e # calls) = Some (Propagated e, [])"
  by (auto simp add: catch_telegram_errors_def absorbed_def split: if_splits)

text \<open>
  Claim C1, as amended. When every error that the wrapped call raises is one that the
  chain absorbs (\<open>Unauthorized\<close>, \<open>RetryAfter\<close>, \<open>TimedOut\<close>, \<open>NetworkError\<close>, a
  \<open>BadRequest\<close> whose message contains "not found", or another \<open>TelegramError\<close>),
  the wrapper never hands an error to its caller; and it does return, with the result
  or with \<open>None\<close>, as soon as five of the listed calls are not answered by
  \<open>RetryAfter\<close>.
\<close>

theorem wrapper_absorbs:
  assumes "list_all attempt_absorbed calls"
  shows "(\<forall>e sl. catch_telegram_errors calls \<noteq> Some (Propagated e, sl)) \<and>
         (max_retries \<le> length (filter (\<lambda>a. \<not> is_retry_after a) calls) \<longrightarrow>
            returned (catch_telegram_errors calls))"
proof (intro conjI allI impI)
  fix e sl
  show "catch_telegram_errors calls \<noteq> Some (Propagated e, sl)"
    unfolding catch_telegram_errors_def using assms by (rule wrapper_absorbed)
next
  assume m: "max_retries \<le> length (filter (\<lambda>a. \<not> is_retry_after a) calls)"
  then have "0 < length (filter (\<lambda>a. \<not> is_retry_after a) calls)"
    unfolding max_retries_def by linarith
  with m have "wrapper 0 calls \<noteq> None" by (intro wrapper_returns) simp_all
  moreover have "\<forall>e sl. wrapper 0 calls \<noteq> Some (Propagated e, sl)"
    using assms by (simp add: wrapper_absorbed)
  ultimately show "returned (catch_telegram_errors calls)"
    unfolding catch_telegram_errors_def by (rule not_propagated_returned)
qed

theorem wrapper_absorbs_witness:
  "catch_telegram_errors (Raises flood_error # replicate 5 (Raises timeout_error) :: nat attempt list) = Some (NoResult, [3, 1, 2, 4, 8])
   \<and> returned (catch_telegram_errors (Raises flood_error # Raises timeout_error # Returns (7::nat) # replicate 4 (Raises timeout_error)))"
proof -
  have a: "list_all attempt_absorbed (Raises flood_error # Raises timeout_error # Returns (7::nat) # replicate 4 (Raises timeout_error))"
    by code_simp
  have b: "max_retries \<le> length (filter (\<lambda>a. \<not> is_retry_after a) (Raises flood_error # Raises timeout_error # Returns (7::nat) # replicate 4 (Raises timeout_error)))"
    by code_simp
  have c: "catch_telegram_errors (Raises flood_error # replicate 5 (Raises timeout_error) :: nat attempt list) = Some (NoResult, [3, 1, 2, 4, 8])"
    by code_simp
  from wrapper_absorbs[OF a] b c show ?thesis by blast
qed

text \<open>
  The claim as stated fails: an exception that none of the \<open>except\<close> clauses names
  (any error from outside the platform library) passes through the wrapper to the
  caller. A \<open>BadRequest\<close> that reaches its clause with another message is re-raised
  by the clause itself (\<open>wrapper_propagates_unabsorbed\<close>).
\<close>

theorem wrapper_propagates_foreign_error:
  "catch_telegram_errors [Raises foreign_error, Returns (0::nat)] = Some (Propagated foreign_error, []) \<and>
   \<not> returned (catch_telegram_errors [Raises foreign_error, Returns (0::nat)])"
  by (simp add: catch_telegram_errors_def foreign_error_def)

section \<open>Properties of update processing\<close>

text \<open>
  Claim C9. A message whose chat is not private, whatever its text, gets the
  private-only notice and nothing else: the conversation states and the store are
  unchanged, and no session is opened (no store operation is run).
\<close>

theorem non_private_message_only_notice:
  assumes "message upd = Some m" and "chat_type m \<noteq> py ''private''"
  shows "process_update racing ev st user_states upd =
     \<lparr>r_store = st, r_states = user_states,
      sent = [send_message (chat_id m) msg_private_only None], db = [], raised = None\<rparr>"
  using assms by (simp add: process_update_def Let_def)

theorem non_private_message_only_notice_witness:
  "process_update [] sample_env empty_store (Map.empty(5 \<mapsto> awaiting_username))
     \<lparr>update_id = 3, message = Some (group_message 5 9 (py ''/start''))\<rparr> =
     \<lparr>r_store = empty_store, r_states = Map.empty(5 \<mapsto> awaiting_username),
      sent = [send_message 5 msg_private_only None], db = [], raised = None\<rparr>"
proof -
  have t: "chat_type (group_message 5 9 (py ''/start'')) \<noteq> py ''private''"
    by (simp add: group_message_def py_def)
  have c: "chat_id (group_message 5 9 (py ''/start'')) = 5"
    by (simp add: group_message_def)
  show ?thesis
    using non_private_message_only_notice[of
        "\<lparr>update_id = 3, message = Some (group_message 5 9 (py ''/start''))\<rparr>"
        "group_message 5 9 (py ''/start'')" "[]" sample_env empty_store
        "Map.empty(5 \<mapsto> awaiting_username)"] t c
    by simp
qed

text \<open>
  Claim C10. An update that carries no message is skipped: nothing is sent, the
  conversation states and the store are unchanged, and no session is opened.
\<close>

theorem update_without_message_skipped:
  assumes "message upd = None"
  shows "process_update racing ev st user_states upd =
     \<lparr>r_store = st, r_states = user_states, sent = [], db = [], raised = None\<rparr>"
  using assms by (simp add: process_update_def)

theorem update_without_message_skipped_witness:
  "process_update [] sample_env empty_store (Map.empty(5 \<mapsto> awaiting_username))
     \<lparr>update_id = 3, message = None\<rparr> =
     \<lparr>r_store = empty_store, r_states = Map.empty(5 \<mapsto> awaiting_username),
      sent = [], db = [], raised = None\<rparr>"
  using update_without_message_skipped[of "\<lparr>update_id = 3, message = None\<rparr>" "[]" sample_env
      empty_store "Map.empty(5 \<mapsto> awaiting_username)"]
  by simp

lemma admin_count_pos: "is_admin_query st uid \<Longrightarrow> admin_count st \<noteq> 0"
  by (auto simp add: is_admin_query_def admin_count_def)

lemma entry_query_None: "entry_query st c = None \<longleftrightarrow> c \<notin> user_id ` set (waitlist_entries st)"
  by (auto simp add: entry_query_def find_None_iff)

lemma start_not_labels:
  "py ''/start'' \<noteq> msg_coming_soon_btn" "py ''/start'' \<noteq> msg_admin_download"
  "msg_admin_download \<noteq> msg_coming_soon_btn" "msg_admin_download \<noteq> py ''/start''"
  by (simp_all add: py_def msg_coming_soon_btn_def msg_admin_download_def)

text \<open>
  Claim C7. When the sender of \<open>/start\<close> is an admin without waitlist entry, the admin
  menu is not presented: the only message sent is the username prompt and the chat
  goes to \<open>awaiting_username\<close>. Whenever \<open>/start\<close> presents the admin menu, the sender
  is an admin and has an entry.
\<close>

theorem start_admin_without_entry:
  assumes "message upd = Some m" and "chat_type m = py ''private''"
    and "from_user m = Some uid" and "stripped_text m = py ''/start''"
  shows "(is_admin_query st uid \<and> entry_query st uid = None \<longrightarrow>
            sent (process_update racing ev st user_states upd) =
              [send_message (chat_id m) msg_ask_username None] \<and>
            r_states (process_update racing ev st user_states upd) =
              user_states(chat_id m \<mapsto> awaiting_username) \<and>
            r_store (process_update racing ev st user_states upd) = st \<and>
            raised (process_update racing ev st user_states upd) = None) \<and>
         ((\<exists>c k. send_message c msg_admin_menu k \<in>
              set (sent (process_update racing ev st user_states upd))) \<longrightarrow>
            is_admin_query (r_store (process_update racing ev st user_states upd)) uid \<and>
            entry_query st uid \<noteq> None)"
proof -
  have r: "process_update racing ev st user_states upd =
        (handle_start st user_states (chat_id m) uid)
          \<lparr>db := [session_open, query_admin uid, query_entry uid] @
                 db (handle_start st user_states (chat_id m) uid) @ [session_close]\<rparr>"
    using assms by (simp add: process_update_def dispatch_def Let_def)
  show ?thesis
    unfolding r
    by (auto simp add: handle_start_def Let_def is_admin_query_def admin_count_def)
qed

theorem start_admin_without_entry_witness:
  "sent (process_update [] sample_env admin_only_store Map.empty
           (private_message 1001 (py '' /start''))) =
     [send_message 1001 msg_ask_username None] \<and>
   r_states (process_update [] sample_env admin_only_store Map.empty
           (private_message 1001 (py '' /start''))) =
     Map.empty(1001 \<mapsto> awaiting_username) \<and>
   r_store (process_update [] sample_env admin_only_store Map.empty
           (private_message 1001 (py '' /start''))) = admin_only_store"
proof -
  let ?m = "\<lparr>chat_id = 1001, chat_type = py ''private'', from_user = Some 1001,
             text_opt = Some (py '' /start'')\<rparr>"
  have 1: "message (private_message 1001 (py '' /start'')) = Some ?m"
    by (simp add: private_message_def)
  have 2: "chat_type ?m = py ''private''" by simp
  have 3: "from_user ?m = Some 1001" by simp
  have 4: "stripped_text ?m = py ''/start''"
    by (simp add: stripped_text_def strip_def isspace_def py_def)
  have 5: "is_admin_query admin_only_store 1001 \<and> entry_query admin_only_store 1001 = None"
    by (simp add: is_admin_query_def entry_query_def admin_only_store_def)
  from start_admin_without_entry[OF 1 2 3 4, of admin_only_store "[]" sample_env Map.empty] 5
  show ?thesis by simp
qed

lemma entries_ordered_sorted: "sorted (map created_at (entries_ordered tie st))"
  by (simp add: entries_ordered_def)

lemma entries_ordered_mset: "mset (entries_ordered tie st) = mset (waitlist_entries st)"
  by (simp add: entries_ordered_def)

lemma entries_ordered_distinct:
  assumes d: "distinct (map created_at (waitlist_entries st))"
  shows "entries_ordered tie st = sort_key created_at (waitlist_entries st)"
proof -
  let ?t = "waitlist_entries st"
  let ?xs = "entries_ordered tie st"
  let ?ys = "sort_key created_at ?t"
  have sx: "set ?xs = set ?t" and sy: "set ?ys = set ?t"
    by (simp_all add: entries_ordered_def)
  from d have dt: "distinct ?t" and inj: "inj_on created_at (set ?t)"
    by (simp_all add: distinct_map)
  have "inj_on created_at (set ?xs \<union> set ?ys)" using inj sx sy by simp
  moreover have "sorted (map created_at ?xs)" by (rule entries_ordered_sorted)
  moreover have "distinct (map created_at ?xs)"
    using dt inj sx by (simp add: distinct_map entries_ordered_def)
  moreover have "sorted (map created_at ?ys)" by simp
  moreover have "distinct (map created_at ?ys)"
    using dt inj sy by (simp add: distinct_map)
  moreover have "set ?xs = set ?ys" using sx sy by simp
  ultimately show ?thesis by (rule map_sorted_distinct_set_unique)
qed

text \<open>
  The rank does not restrict the database: every listing of the table's rows that is
  ascending in the timestamp is the answer of the query for some rank (the position of
  the row in that listing).
\<close>

lemma position_map:
  "distinct es \<Longrightarrow> map (\<lambda>e. length (takeWhile (\<lambda>x. x \<noteq> e) es)) es = [0..<length es]"
proof (induction es)
  case Nil
  then show ?case by simp
next
  case (Cons a es)
  then have d: "distinct es" and na: "a \<notin> set es" by simp_all
  have "map (\<lambda>e. length (takeWhile (\<lambda>x. x \<noteq> e) (a # es))) es =
        map (\<lambda>e. Suc (length (takeWhile (\<lambda>x. x \<noteq> e) es))) es"
    using na by (intro map_cong) auto
  also have "\<dots> = map Suc (map (\<lambda>e. length (takeWhile (\<lambda>x. x \<noteq> e) es)) es)"
    by simp
  also have "\<dots> = map Suc [0..<length es]" using Cons.IH[OF d] by simp
  also have "\<dots> = [Suc 0..<Suc (length es)]" by (rule map_Suc_upt)
  finally have tl: "map (\<lambda>e. length (takeWhile (\<lambda>x. x \<noteq> e) (a # es))) es =
      [Suc 0..<Suc (length es)]" .
  have u: "[0..<length (a # es)] = 0 # [Suc 0..<Suc (length es)]"
    by (simp only: length_Cons upt_conv_Cons[OF zero_less_Suc])
  have h: "length (takeWhile (\<lambda>x. x \<noteq> a) (a # es)) = 0" by simp
  show ?case unfolding u list.map(2) tl h by (rule refl)
qed

lemma entries_ordered_any_tie_order:
  assumes s: "sorted (map created_at es)" and m: "mset es = mset (waitlist_entries st)"
    and d: "distinct es"
  shows "entries_ordered (\<lambda>e. length (takeWhile (\<lambda>x. x \<noteq> e) es)) st = es"
proof -
  let ?tie = "\<lambda>e. length (takeWhile (\<lambda>x. x \<noteq> e) es)"
  let ?t = "waitlist_entries st"
  have pm: "map ?tie es = [0..<length es]" using d by (rule position_map)
  from m have st: "set ?t = set es" by (metis mset_eq_setD)
  from m d have dt: "distinct ?t" by (metis mset_eq_imp_distinct_iff)
  have de: "distinct (map ?tie es)" and so: "sorted (map ?tie es)" by (simp_all only: pm distinct_upt sorted_upt)
  from de have inj: "inj_on ?tie (set es)" by (simp add: distinct_map)
  have "sort_key ?tie ?t = es"
  proof (rule map_sorted_distinct_set_unique[of ?tie])
    show "inj_on ?tie (set (sort_key ?tie ?t) \<union> set es)" using inj st by simp
    show "sorted (map ?tie (sort_key ?tie ?t))" by simp
    show "distinct (map ?tie (sort_key ?tie ?t))" using dt inj st by (simp add: distinct_map)
    show "sorted (map ?tie es)" by (rule so)
    show "distinct (map ?tie es)" by (rule de)
    show "set (sort_key ?tie ?t) = set es" using st by simp
  qed
  then show ?thesis using s by (simp add: entries_ordered_def sort_key_id_if_sorted)
qed

text \<open>
  Claim C8. When an admin sends the download label, the file sent has one line per
  waitlist entry, the entries taken by ascending creation timestamp (whatever their
  ids), the \<open>i\<close>-th line, counted from 1, being \<open>i\<close>, a dot, a space, the username, a
  space and the credential; the lines are joined with newlines. The entries of the
  file are all rows of the table, oldest first, whatever order the database gives to
  rows with equal timestamps; when the timestamps differ, that is the one list sorted
  by timestamp.
\<close>

theorem admin_download_export:
  assumes "message upd = Some m" and "chat_type m = py ''private''"
    and "from_user m = Some uid" and "stripped_text m = msg_admin_download"
    and "is_admin_query st uid"
  shows "sent (process_update racing ev st user_states upd) =
           [send_document (chat_id m)
              (join [10] (map (\<lambda>(i, e). str_nat i @ py ''. '' @ wanted_username e @ py '' '' @ password e)
                 (enumerate 1 (entries_ordered (tie_rank ev) st))))
              (py ''users.txt'') msg_file_caption] \<and>
         sorted (map created_at (entries_ordered (tie_rank ev) st)) \<and>
         mset (entries_ordered (tie_rank ev) st) = mset (waitlist_entries st) \<and>
         (distinct (map created_at (waitlist_entries st)) \<longrightarrow>
            entries_ordered (tie_rank ev) st = sort_key created_at (waitlist_entries st)) \<and>
         r_store (process_update racing ev st user_states upd) = st \<and>
         r_states (process_update racing ev st user_states upd) = user_states \<and>
         raised (process_update racing ev st user_states upd) = None"
proof -
  have r: "process_update racing ev st user_states upd =
        (handle_download ev st user_states (chat_id m))
          \<lparr>db := [session_open, query_admin uid, query_entry uid] @
                 db (handle_download ev st user_states (chat_id m)) @ [session_close]\<rparr>"
    using assms by (simp add: process_update_def dispatch_def Let_def start_not_labels)
  have l: "export_line = (\<lambda>(i, e). str_nat i @ py ''. '' @ wanted_username e @ py '' '' @ password e)"
    by (rule ext) (simp add: export_line_def)
  show ?thesis
    unfolding r
    by (simp add: handle_download_def export_content_def l entries_ordered_sorted
        entries_ordered_mset entries_ordered_distinct)
qed

theorem admin_download_export_witness:
  "sent (process_update [] sample_env sample_store Map.empty
           (private_message 7 msg_admin_download)) =
     [send_document 7 (py ''1. @bobby_2 qx'' @ [10] @ py ''2. @alice_1 pw'')
        (py ''users.txt'') msg_file_caption]"
proof -
  let ?m = "\<lparr>chat_id = 7, chat_type = py ''private'', from_user = Some 7,
             text_opt = Some msg_admin_download\<rparr>"
  have 1: "message (private_message 7 msg_admin_download) = Some ?m"
    by (simp add: private_message_def)
  have 2: "chat_type ?m = py ''private''" by simp
  have 3: "from_user ?m = Some 7" by simp
  have 4: "stripped_text ?m = msg_admin_download"
    by (simp add: stripped_text_def strip_def isspace_def py_def msg_admin_download_def)
  have 5: "is_admin_query sample_store 7"
    by (simp add: is_admin_query_def sample_store_def)
  have 6: "join [10] (map (\<lambda>(i, e). str_nat i @ py ''. '' @ wanted_username e @ py '' '' @ password e)
                 (enumerate 1 (entries_ordered (tie_rank sample_env) sample_store))) =
           py ''1. @bobby_2 qx'' @ [10] @ py ''2. @alice_1 pw''"
    by code_simp
  from admin_download_export[OF 1 2 3 4 5, of "[]" sample_env Map.empty] 6
  show ?thesis by simp
qed

text \<open>
  Claim C2, as amended. A chat is awaiting a username, the text normalizes, the
  uniqueness query finds nothing, and the commit then fails because another writer has
  taken the username in between. The source does not catch that error: nothing is sent
  (no "taken" reply), the chat stays in \<open>awaiting_username\<close>, and the
  \<open>IntegrityError\<close> leaves the processing of the update.
\<close>

theorem insert_conflict_propagates:
  assumes m: "message upd = Some m" and p: "chat_type m = py ''private''"
    and u: "from_user m = Some uid"
    and aw: "user_states (chat_id m) = Some awaiting_username"
    and n: "normalize_username (stripped_text m) = Some n"
    and ex: "existing_query st n = None"
    and race: "list_ex (\<lambda>e. wanted_username e = n) racing"
  shows "raised (process_update racing ev st user_states upd) = Some IntegrityError \<and>
         sent (process_update racing ev st user_states upd) = [] \<and>
         r_states (process_update racing ev st user_states upd) = user_states \<and>
         r_store (process_update racing ev st user_states upd) =
           st\<lparr>waitlist_entries := waitlist_entries st @ racing\<rparr>"
proof -
  from n have t: "stripped_text m \<noteq> []" "stripped_text m \<noteq> py ''/start''"
    "stripped_text m \<noteq> msg_coming_soon_btn" "stripped_text m \<noteq> msg_admin_download"
    using normalize_not_commands by auto
  have d: "dispatch racing ev st user_states (chat_id m) uid (stripped_text m) =
      handle_username racing ev st user_states (chat_id m) uid (stripped_text m)"
    using t aw by (simp add: dispatch_def Let_def)
  have c: "add_entry_commit (st\<lparr>waitlist_entries := waitlist_entries st @ racing\<rparr>) uid n
      (generate_password (draw ev) 12) (utcnow ev) = Inl IntegrityError"
    using race by (simp add: add_entry_commit_def)
  have h: "handle_username racing ev st user_states (chat_id m) uid (stripped_text m) =
      \<lparr>r_store = st\<lparr>waitlist_entries := waitlist_entries st @ racing\<rparr>,
       r_states = user_states, sent = [],
       db = [query_existing n, add_entry uid n, commit], raised = Some IntegrityError\<rparr>"
    using n ex c by (simp add: handle_username_def Let_def)
  show ?thesis
    using m p u by (simp add: process_update_def Let_def d h)
qed

theorem insert_conflict_propagates_witness:
  "raised (process_update [alice_entry] sample_env empty_store (Map.empty(5 \<mapsto> awaiting_username))
     (private_message 5 (py ''Alice_1''))) = Some IntegrityError \<and>
   r_states (process_update [alice_entry] sample_env empty_store (Map.empty(5 \<mapsto> awaiting_username))
     (private_message 5 (py ''Alice_1''))) 5 = Some awaiting_username"
proof -
  let ?m = "\<lparr>chat_id = 5, chat_type = py ''private'', from_user = Some 5,
             text_opt = Some (py ''Alice_1'')\<rparr>"
  have 1: "message (private_message 5 (py ''Alice_1'')) = Some ?m"
    by (simp add: private_message_def)
  have 2: "chat_type ?m = py ''private''" by simp
  have 3: "from_user ?m = Some 5" by simp
  have 4: "(Map.empty(5 \<mapsto> awaiting_username)) (chat_id ?m) = Some awaiting_username" by simp
  have s: "stripped_text ?m = py ''Alice_1''"
    by (simp add: stripped_text_def strip_def isspace_def py_def)
  have "normalize_username (py ''Alice_1'') = Some (py ''@alice_1'')" by code_simp
  with s have 5: "normalize_username (stripped_text ?m) = Some (py ''@alice_1'')" by simp
  have 6: "existing_query empty_store (py ''@alice_1'') = None"
    by (simp add: existing_query_def empty_store_def)
  have 7: "list_ex (\<lambda>e. wanted_username e = py ''@alice_1'') [alice_entry]"
    by (simp add: alice_entry_def)
  from insert_conflict_propagates[of "private_message 5 (py ''Alice_1'')" ?m 5
      "Map.empty(5 \<mapsto> awaiting_username)" "py ''@alice_1''" empty_store "[alice_entry]" sample_env]
    1 2 3 4 5 6 7
  show ?thesis by simp
qed

text \<open>
  The claim as stated fails at a concrete input: user 5 is awaiting a username and sends
  \<open>Alice_1\<close> while another writer commits \<open>@alice_1\<close>.
\<close>

theorem insert_conflict_not_reported_taken:
  "raised (process_update [alice_entry] sample_env empty_store (Map.empty(5 \<mapsto> awaiting_username))
     (private_message 5 (py ''Alice_1''))) = Some IntegrityError \<and>
   send_message 5 msg_username_taken None \<notin> set (sent (process_update [alice_entry] sample_env
     empty_store (Map.empty(5 \<mapsto> awaiting_username)) (private_message 5 (py ''Alice_1''))))"
proof -
  let ?m = "\<lparr>chat_id = 5, chat_type = py ''private'', from_user = Some 5,
             text_opt = Some (py ''Alice_1'')\<rparr>"
  have s: "stripped_text ?m = py ''Alice_1''"
    by (simp add: stripped_text_def strip_def isspace_def py_def)
  have n: "normalize_username (py ''Alice_1'') = Some (py ''@alice_1'')" by code_simp
  have t: "py ''Alice_1'' \<noteq> py ''/start''" "py ''Alice_1'' \<noteq> msg_coming_soon_btn"
    "py ''Alice_1'' \<noteq> msg_admin_download" "py ''Alice_1'' \<noteq> []"
    by (simp_all add: py_def msg_coming_soon_btn_def msg_admin_download_def)
  have h: "handle_username [alice_entry] sample_env empty_store
      (Map.empty(5 \<mapsto> awaiting_username)) 5 5 (py ''Alice_1'') =
      \<lparr>r_store = \<lparr>admins = [], waitlist_entries = [alice_entry]\<rparr>,
       r_states = Map.empty(5 \<mapsto> awaiting_username), sent = [],
       db = [query_existing (py ''@alice_1''), add_entry 5 (py ''@alice_1''), commit],
       raised = Some IntegrityError\<rparr>"
    by (simp add: handle_username_def n Let_def existing_query_def empty_store_def
        add_entry_commit_def alice_entry_def)
  have d: "dispatch [alice_entry] sample_env empty_store
      (Map.empty(5 \<mapsto> awaiting_username)) 5 5 (py ''Alice_1'') =
      handle_username [alice_entry] sample_env empty_store
      (Map.empty(5 \<mapsto> awaiting_username)) 5 5 (py ''Alice_1'')"
    using t by (simp add: dispatch_def Let_def)
  show ?thesis
    by (simp add: process_update_def private_message_def Let_def s d h)
qed

lemma handle_start_admins:
  "admins (r_store (handle_start st us chat uid)) = admins st \<or>
   (admin_count st = 0 \<and> admins (r_store (handle_start st us chat uid)) = [uid])"
  by (simp add: handle_start_def Let_def admin_count_def)

lemma handle_username_admins:
  "admins (r_store (handle_username racing ev st us chat uid txt)) = admins st"
  by (simp add: handle_username_def add_entry_commit_def Let_def split: option.splits)

lemma dispatch_admins:
  "admins (r_store (dispatch racing ev st us chat uid txt)) = admins st \<or>
   (admin_count st = 0 \<and> admins (r_store (dispatch racing ev st us chat uid txt)) = [uid])"
  using handle_start_admins[of st us chat uid]
  by (simp add: dispatch_def Let_def handle_username_admins handle_download_def)

lemma process_update_admins:
  "admins (r_store (process_update racing ev st us upd)) = admins st \<or>
   (admin_count st = 0 \<and> (\<exists>uid. admins (r_store (process_update racing ev st us upd)) = [uid]))"
proof (cases "message upd")
  case None
  then show ?thesis by (simp add: process_update_def)
next
  case (Some m)
  show ?thesis
  proof (cases "chat_type m \<noteq> py ''private''")
    case True
    then show ?thesis using Some by (simp add: process_update_def Let_def)
  next
    case False
    show ?thesis
    proof (cases "from_user m")
      case None
      then show ?thesis using Some False by (simp add: process_update_def Let_def)
    next
      case (Some uid)
      then show ?thesis
        using \<open>message upd = Some m\<close> False
          dispatch_admins[of racing ev st us "chat_id m" uid "stripped_text m"]
        by (auto simp add: process_update_def Let_def)
    qed
  qed
qed

lemma process_updates_admins:
  "admin_count st \<le> 1 \<Longrightarrow> admin_count (r_store (process_updates st us inputs)) \<le> 1"
proof (induction inputs arbitrary: st us)
  case Nil
  then show ?case by simp
next
  case (Cons a inputs)
  obtain ev upd where a: "a = (ev, upd)" by (cases a)
  let ?r = "process_update [] ev st us upd"
  have s: "admin_count (r_store ?r) \<le> 1"
    using process_update_admins[of "[]" ev st us upd] Cons.prems
    by (auto simp add: admin_count_def)
  show ?case
  proof (cases "raised ?r")
    case None
    then show ?thesis
      using Cons.IH[OF s, of "r_states ?r"] by (simp add: a Let_def)
  next
    case (Some e)
    then show ?thesis using s by (simp add: a Let_def)
  qed
qed

text \<open>
  Claim C3. Starting without admins, the updates processed one at a time never leave
  more than one admin row; and an update changes the table \<open>admins\<close> only when the
  count it observes is zero, making its sender the one admin.
\<close>

theorem single_admin_bootstrap:
  "(admin_count st = 0 \<longrightarrow> admin_count (r_store (process_updates st user_states inputs)) \<le> 1) \<and>
   (admins (r_store (process_update racing ev st' user_states' upd)) \<noteq> admins st' \<longrightarrow>
      admin_count st' = 0 \<and> admin_count (r_store (process_update racing ev st' user_states' upd)) = 1)"
proof (intro conjI impI)
  assume "admin_count st = 0"
  then have "admin_count st \<le> 1" by simp
  then show "admin_count (r_store (process_updates st user_states inputs)) \<le> 1"
    by (rule process_updates_admins)
next
  assume c: "admins (r_store (process_update racing ev st' user_states' upd)) \<noteq> admins st'"
  with process_update_admins[of racing ev st' user_states' upd]
  show "admin_count st' = 0" by blast
  from c process_update_admins[of racing ev st' user_states' upd]
  show "admin_count (r_store (process_update racing ev st' user_states' upd)) = 1"
    by (auto simp add: admin_count_def)
qed

theorem single_admin_bootstrap_witness:
  "admins (r_store (process_updates empty_store Map.empty
      [(sample_env, private_message 1001 (py ''/start'')),
       (sample_env, private_message 2002 (py ''/start''))])) = [1001] \<and>
   admin_count (r_store (process_updates empty_store Map.empty
      [(sample_env, private_message 1001 (py ''/start'')),
       (sample_env, private_message 2002 (py ''/start''))])) \<le> 1"
proof -
  have z: "admin_count empty_store = 0" by (simp add: admin_count_def empty_store_def)
  have t: "\<And>uid. stripped_text \<lparr>chat_id = uid, chat_type = py ''private'', from_user = Some uid,
      text_opt = Some (py ''/start'')\<rparr> = py ''/start''"
    by (simp add: stripped_text_def strip_def isspace_def py_def)
  have s1: "process_update [] sample_env empty_store Map.empty
      (private_message 1001 (py ''/start'')) =
      \<lparr>r_store = admin_only_store, r_states = Map.empty(1001 \<mapsto> awaiting_username),
       sent = [send_message 1001 msg_first_admin None, send_message 1001 msg_ask_username None],
       db = [session_open, query_admin 1001, query_entry 1001, query_admin_count,
             add_admin 1001, commit, session_close],
       raised = None\<rparr>"
    by (simp add: process_update_def private_message_def t dispatch_def handle_start_def Let_def
        empty_store_def admin_only_store_def is_admin_query_def entry_query_def admin_count_def)
  have s2: "admins (r_store (process_update [] sample_env admin_only_store
      (Map.empty(1001 \<mapsto> awaiting_username)) (private_message 2002 (py ''/start'')))) = [1001]"
    by (simp add: process_update_def private_message_def t dispatch_def handle_start_def Let_def
        admin_only_store_def is_admin_query_def entry_query_def admin_count_def)
  have r2: "raised (process_update [] sample_env admin_only_store
      (Map.empty(1001 \<mapsto> awaiting_username)) (private_message 2002 (py ''/start''))) = None"
    by (simp add: process_update_def private_message_def t dispatch_def handle_start_def Let_def
        admin_only_store_def is_admin_query_def entry_query_def admin_count_def)
  have e: "admins (r_store (process_updates empty_store Map.empty
      [(sample_env, private_message 1001 (py ''/start'')),
       (sample_env, private_message 2002 (py ''/start''))])) = [1001]"
    by (simp add: s1 s2 r2 Let_def)
  from single_admin_bootstrap[of empty_store Map.empty
      "[(sample_env, private_message 1001 (py ''/start'')),
        (sample_env, private_message 2002 (py ''/start''))]"
      "[]" sample_env empty_store Map.empty "private_message 1001 (py ''/start'')"] z e
  show ?thesis by blast
qed

lemma entry_query_admins [simp]: "entry_query (st\<lparr>admins := a\<rparr>) c = entry_query st c"
  by (simp add: entry_query_def)

lemma handle_start_inv:
  assumes "one_entry_per_user st" and "awaiting_have_no_entry st us"
  shows "one_entry_per_user (r_store (handle_start st us uid uid)) \<and>
         awaiting_have_no_entry (r_store (handle_start st us uid uid))
           (r_states (handle_start st us uid uid))"
  using assms
  by (auto simp add: handle_start_def Let_def one_entry_per_user_def awaiting_have_no_entry_def)

lemma handle_start_entries:
  "waitlist_entries (r_store (handle_start st us chat uid)) = waitlist_entries st"
  by (simp add: handle_start_def Let_def)

lemma handle_username_inv:
  assumes o: "one_entry_per_user st" and a: "awaiting_have_no_entry st us"
    and w: "us uid = Some awaiting_username"
  shows "one_entry_per_user (r_store (handle_username [] ev st us uid uid txt)) \<and>
         awaiting_have_no_entry (r_store (handle_username [] ev st us uid uid txt))
           (r_states (handle_username [] ev st us uid uid txt))"
proof -
  from a w have f: "uid \<notin> user_id ` set (waitlist_entries st)"
    by (simp add: awaiting_have_no_entry_def entry_query_None)
  have s: "st\<lparr>waitlist_entries := waitlist_entries st\<rparr> = st" by simp
  show ?thesis
    using o a f
    by (auto simp add: handle_username_def Let_def s add_entry_commit_def one_entry_per_user_def
        awaiting_have_no_entry_def entry_query_None split: option.splits)
qed

lemma dispatch_inv:
  assumes o: "one_entry_per_user st" and a: "awaiting_have_no_entry st us"
  shows "one_entry_per_user (r_store (dispatch [] ev st us uid uid txt)) \<and>
         awaiting_have_no_entry (r_store (dispatch [] ev st us uid uid txt))
           (r_states (dispatch [] ev st us uid uid txt))"
  using handle_start_inv[OF o a, of uid] handle_username_inv[OF o a, of uid ev "txt"] o a
  by (simp add: dispatch_def Let_def handle_download_def)

lemma process_update_inv:
  assumes wf: "private_chat_of_sender upd"
    and o: "one_entry_per_user st" and a: "awaiting_have_no_entry st us"
  shows "one_entry_per_user (r_store (process_update [] ev st us upd)) \<and>
         awaiting_have_no_entry (r_store (process_update [] ev st us upd))
           (r_states (process_update [] ev st us upd))"
proof (cases "message upd")
  case None
  then show ?thesis using o a by (simp add: process_update_def)
next
  case (Some m)
  show ?thesis
  proof (cases "chat_type m \<noteq> py ''private''")
    case True
    then show ?thesis using Some o a by (simp add: process_update_def Let_def)
  next
    case False
    with wf Some have u: "from_user m = Some (chat_id m)"
      by (simp add: private_chat_of_sender_def)
    show ?thesis
      using Some False u dispatch_inv[OF o a, of ev "chat_id m" "stripped_text m"]
      by (simp add: process_update_def Let_def)
  qed
qed

lemma process_updates_inv:
  assumes "list_all (\<lambda>(ev, upd). private_chat_of_sender upd) inputs"
    and "one_entry_per_user st" and "awaiting_have_no_entry st us"
  shows "one_entry_per_user (r_store (process_updates st us inputs)) \<and>
         awaiting_have_no_entry (r_store (process_updates st us inputs))
           (r_states (process_updates st us inputs))"
  using assms
proof (induction inputs arbitrary: st us)
  case Nil
  then show ?case by simp
next
  case (Cons x inputs)
  obtain ev upd where x: "x = (ev, upd)" by (cases x)
  let ?r = "process_update [] ev st us upd"
  from Cons.prems x have wf: "private_chat_of_sender upd"
    and rest: "list_all (\<lambda>(ev, upd). private_chat_of_sender upd) inputs" by simp_all
  have s: "one_entry_per_user (r_store ?r) \<and> awaiting_have_no_entry (r_store ?r) (r_states ?r)"
    using wf Cons.prems(2,3) by (rule process_update_inv)
  show ?case
  proof (cases "raised ?r")
    case None
    then show ?thesis
      using Cons.IH[OF rest, of "r_store ?r" "r_states ?r"] s by (simp add: x Let_def)
  next
    case (Some e)
    then show ?thesis using s by (simp add: x Let_def)
  qed
qed

lemma dispatch_entries_unchanged:
  assumes "us chat \<noteq> Some awaiting_username"
  shows "waitlist_entries (r_store (dispatch [] ev st us chat uid txt)) = waitlist_entries st"
  using assms by (simp add: dispatch_def Let_def handle_start_entries handle_download_def)

lemma process_update_entries_unchanged:
  assumes wf: "private_chat_of_sender upd" and a: "awaiting_have_no_entry st us"
    and m: "message upd = Some m" and u: "from_user m = Some uid"
    and e: "entry_query st uid \<noteq> None"
  shows "waitlist_entries (r_store (process_update [] ev st us upd)) = waitlist_entries st"
proof (cases "chat_type m \<noteq> py ''private''")
  case True
  then show ?thesis using m by (simp add: process_update_def Let_def)
next
  case False
  with wf m u have c: "chat_id m = uid" by (simp add: private_chat_of_sender_def)
  from a e c have "us (chat_id m) \<noteq> Some awaiting_username"
    by (auto simp add: awaiting_have_no_entry_def)
  then have "waitlist_entries (r_store (dispatch [] ev st us (chat_id m) uid (stripped_text m))) =
      waitlist_entries st"
    by (rule dispatch_entries_unchanged)
  then show ?thesis
    using m u False by (simp add: process_update_def Let_def)
qed

text \<open>
  Claim C4. From the empty store, after any sequence of updates there is at most one
  waitlist entry per user, and an update from a sender who has an entry leaves the
  table of entries as it is. The platform identifies a private chat by its user
  (\<open>chat.id\<close> is the sender's id), which \<open>private_chat_of_sender\<close> states; the source
  keys the conversation state by chat and the entries by user, and relies on it.
\<close>

theorem one_entry_per_user_reachable:
  assumes "list_all (\<lambda>(ev, upd). private_chat_of_sender upd) inputs"
  shows "one_entry_per_user (r_store (process_updates empty_store Map.empty inputs)) \<and>
         (private_chat_of_sender upd \<and> message upd = Some m \<and> from_user m = Some uid \<and>
          entry_query (r_store (process_updates empty_store Map.empty inputs)) uid \<noteq> None \<longrightarrow>
            waitlist_entries (r_store (process_update [] ev
               (r_store (process_updates empty_store Map.empty inputs))
               (r_states (process_updates empty_store Map.empty inputs)) upd)) =
            waitlist_entries (r_store (process_updates empty_store Map.empty inputs)))"
proof -
  have o: "one_entry_per_user empty_store"
    by (simp add: one_entry_per_user_def empty_store_def)
  have a: "awaiting_have_no_entry empty_store Map.empty"
    by (simp add: awaiting_have_no_entry_def)
  from process_updates_inv[OF assms o a] show ?thesis
    by (auto intro: process_update_entries_unchanged)
qed

theorem one_entry_per_user_reachable_witness:
  "list_all (\<lambda>(ev, upd). private_chat_of_sender upd)
     [(sample_env, private_message 1001 (py ''/start'')),
      (sample_env, private_message 1001 (py ''My_Name1'')),
      (sample_env, private_message 1001 (py ''Other_Name''))] \<and>
   one_entry_per_user (r_store (process_updates empty_store Map.empty
     [(sample_env, private_message 1001 (py ''/start'')),
      (sample_env, private_message 1001 (py ''My_Name1'')),
      (sample_env, private_message 1001 (py ''Other_Name''))]))"
proof -
  have w: "list_all (\<lambda>(ev, upd). private_chat_of_sender upd)
     [(sample_env, private_message 1001 (py ''/start'')),
      (sample_env, private_message 1001 (py ''My_Name1'')),
      (sample_env, private_message 1001 (py ''Other_Name''))]"
    by (simp add: private_chat_of_sender_def private_message_def)
  from one_entry_per_user_reachable[OF w] w show ?thesis by blast
qed

end
